theory Spec2Isabelle
  imports Complex_Main
begin

section \<open>Data model of the compound graph\<close>

text \<open>
  The renderer (\<^verbatim>\<open>svg-renderer.js\<close>) works on the graph that the layout adapter returns:
  a root object \<^verbatim>\<open>{ width, height, nodes, edges }\<close> whose nodes nest through their own
  \<^verbatim>\<open>nodes\<close> arrays and may carry local \<^verbatim>\<open>edges\<close> arrays. Identifiers are JavaScript
  strings, coordinates are numbers (modelled as reals).

  The root object has both arrays. An absent \<^verbatim>\<open>nodes\<close> or \<^verbatim>\<open>edges\<close> array of a nested
  node reads as the empty list: every use in the functions modelled here is guarded
  (\<^verbatim>\<open>if (!node.edges) return\<close>, \<^verbatim>\<open>node.edges && node.edges.length > 0\<close>,
  \<^verbatim>\<open>if (root.nodes)\<close>). The flag
  \<^verbatim>\<open>collapsed\<close> is absent (\<open>None\<close>) until collapse or expand assigns it, and expand
  tests it with \<^verbatim>\<open>=== false\<close>, so the three values are kept apart.
\<close>

record edge =
  eid :: string
  source :: string
  target :: string
  points :: "(real \<times> real) list"

datatype node =
  Node (nid: string) (nwidth: real) (nheight: real)
       (nnodes: "node list") (nedges: "edge list") (ncollapsed: "bool option")

record layout =
  width :: real
  height :: real
  nodes :: "node list"
  edges :: "edge list"

section \<open>Trace engine\<close>

text \<open>
  \<^verbatim>\<open>trace(nodeId)\<close> keeps two mutable locals, the map \<^verbatim>\<open>checked\<close> and the array
  \<^verbatim>\<open>tracedEdges\<close>; the model threads them as a pair. \<open>backtrack\<close> is the inner function
  of the source, \<open>forEach_edge\<close> is its \<^verbatim>\<open>edges.forEach\<close> loop, which pushes the edge and
  then recurses on the edge's source. The first argument is \<^verbatim>\<open>data.edges\<close>, the edge
  list of the root object.
\<close>

type_synonym trace_state = "string set \<times> edge list"

text \<open>
  The rank that decreases along the recursion: the number of node ids that can still be
  visited (the start node and the sources of the edges, less the checked ones), then the
  number of edges left in the current \<^verbatim>\<open>forEach\<close>.
\<close>

definition trace_rank ::
  "(edge list \<times> string \<times> trace_state) + (edge list \<times> edge list \<times> trace_state) \<Rightarrow> nat \<times> nat" where
  "trace_rank x =
     (case x of
        Inl (es, i, st) \<Rightarrow> (card (insert i (source ` set es) - fst st), 0)
      | Inr (es, pending, st) \<Rightarrow>
          (card ((source ` set es \<union> source ` set pending) - fst st), Suc (length pending)))"

function backtrack :: "edge list \<Rightarrow> string \<Rightarrow> trace_state \<Rightarrow> trace_state"
  and forEach_edge :: "edge list \<Rightarrow> edge list \<Rightarrow> trace_state \<Rightarrow> trace_state"
where
  "backtrack es i (checked, tracedEdges) =
     (if i \<in> checked then (checked, tracedEdges)
      else forEach_edge es (filter (\<lambda>e. target e = i) es) (insert i checked, tracedEdges))"
| "forEach_edge es [] st = st"
| "forEach_edge es (e # rest) (checked, tracedEdges) =
     forEach_edge es rest (backtrack es (source e) (checked, tracedEdges @ [e]))"
  by pat_completeness auto

lemma backtrack_checked_mono_dom:
  "backtrack_forEach_edge_dom (Inl (es, i, st)) \<Longrightarrow> fst st \<subseteq> fst (backtrack es i st)"
  "backtrack_forEach_edge_dom (Inr (es, pending, st)) \<Longrightarrow> fst st \<subseteq> fst (forEach_edge es pending st)"
proof (induction es i st and es pending st rule: backtrack_forEach_edge.pinduct)
  case (1 es i checked tracedEdges)
  then show ?case by (auto simp: backtrack.psimps)
next
  case (2 es st)
  then show ?case by (simp add: forEach_edge.psimps)
next
  case (3 es e rest checked tracedEdges)
  then show ?case by (auto simp: forEach_edge.psimps)
qed

termination backtrack
proof (relation "inv_image (less_than <*lex*> less_than) trace_rank")
  show "wf (inv_image (less_than <*lex*> less_than) trace_rank)"
    by (intro wf_inv_image wf_lex_prod wf_less_than)
next
  fix es :: "edge list" and i :: string and checked :: "string set" and tracedEdges :: "edge list"
  assume "i \<notin> checked"
  then have sub: "(source ` set es \<union> source ` set (filter (\<lambda>e. target e = i) es)) - insert i checked
        \<subset> insert i (source ` set es) - checked"
    by auto
  have "card ((source ` set es \<union> source ` set (filter (\<lambda>e. target e = i) es)) - insert i checked)
        < card (insert i (source ` set es) - checked)"
    by (rule psubset_card_mono[OF _ sub]) simp
  then show "(Inr (es, filter (\<lambda>e. target e = i) es, insert i checked, tracedEdges),
         Inl (es, i, checked, tracedEdges)) \<in> inv_image (less_than <*lex*> less_than) trace_rank"
    by (simp add: trace_rank_def)
next
  fix es :: "edge list" and e :: edge and rest :: "edge list"
    and checked :: "string set" and tracedEdges :: "edge list"
  have "card (insert (source e) (source ` set es) - checked)
        \<le> card ((source ` set es \<union> source ` set (e # rest)) - checked)"
    by (rule card_mono) auto
  then show "(Inl (es, source e, checked, tracedEdges @ [e]),
         Inr (es, e # rest, checked, tracedEdges)) \<in> inv_image (less_than <*lex*> less_than) trace_rank"
    by (auto simp: trace_rank_def)
next
  fix es :: "edge list" and e :: edge and rest :: "edge list"
    and checked :: "string set" and tracedEdges :: "edge list"
  assume dom: "backtrack_forEach_edge_dom (Inl (es, source e, checked, tracedEdges @ [e]))"
  have mono: "checked \<subseteq> fst (backtrack es (source e) (checked, tracedEdges @ [e]))"
    using backtrack_checked_mono_dom(1)[OF dom] by simp
  have "card ((source ` set es \<union> source ` set rest)
            - fst (backtrack es (source e) (checked, tracedEdges @ [e])))
        \<le> card ((source ` set es \<union> source ` set (e # rest)) - checked)"
    by (rule card_mono) (use mono in auto)
  then show "(Inr (es, rest, backtrack es (source e) (checked, tracedEdges @ [e])),
         Inr (es, e # rest, checked, tracedEdges)) \<in> inv_image (less_than <*lex*> less_than) trace_rank"
    by (auto simp: trace_rank_def)
qed

text \<open>
  \<^verbatim>\<open>_.uniq\<close> keeps the first occurrence of every value, in order.
\<close>

fun uniq :: "'a list \<Rightarrow> 'a list" where
  "uniq [] = []"
| "uniq (x # xs) = x # uniq (filter (\<lambda>y. y \<noteq> x) xs)"

text \<open>
  \<^verbatim>\<open>trace(nodeId)\<close>: without a layout the edge list is empty
  (\<^verbatim>\<open>this.layout || { edges: [] }\<close>). The result is the object
  \<^verbatim>\<open>{ edges, nodes }\<close>, here the pair of the traced source/target pairs and the node ids.
\<close>

definition trace :: "layout option \<Rightarrow> string \<Rightarrow> (string \<times> string) list \<times> string list" where
  "trace lay nodeId =
     (let data_edges = (case lay of None \<Rightarrow> [] | Some l \<Rightarrow> edges l);
          tracedEdges = snd (backtrack data_edges nodeId ({}, []))
      in (map (\<lambda>e. (source e, target e)) tracedEdges,
          uniq (map source tracedEdges @ map target tracedEdges)))"

declare backtrack.simps [simp del] forEach_edge.simps [simp del]

section \<open>Tree utilities\<close>

text \<open>
  Modelled from the spec: \<^verbatim>\<open>traverse\<close> of \<^verbatim>\<open>./utils\<close>, which is not among the sources.
  The spec names it a pure function over the graph tree that walks a nested graph; the
  renderer calls it as \<^verbatim>\<open>traverse(root, callback)\<close> and relies on the callback seeing the
  root object and every nested node. The model is the pre-order walk: the callback runs on
  an object first, then the walk descends into that object's \<^verbatim>\<open>nodes\<close>, in order.
  \<open>traverse\<close> lists the nested nodes below a node in the order of the walk; the walks
  whose callback mutates the graph are written out where they occur.
\<close>

fun traverse :: "node \<Rightarrow> node list" where
  "traverse (Node i w h ns es c) = Node i w h ns es c # concat (map traverse ns)"

definition traverse_layout :: "layout \<Rightarrow> node list" where
  "traverse_layout lay = concat (map traverse (nodes lay))"

section \<open>Diff engine\<close>

text \<open>
  The delta render mode classifies elements with D3's keyed data join,
  \<^verbatim>\<open>selection.data(values, d => d.id)\<close>. D3 is an external library; the model follows its
  three passes. The first pass maps every key to the first element that carries it, the
  second walks the new data (a datum whose key is in the map joins that element and takes
  the key out of the map, any other datum enters), the third sends to exit every element
  that repeats an earlier key or whose key is still in the map.
\<close>

fun key_nodes :: "('n \<Rightarrow> string) \<Rightarrow> 'n list \<Rightarrow> (string \<rightharpoonup> 'n) \<Rightarrow> (string \<rightharpoonup> 'n)" where
  "key_nodes kn [] m = m"
| "key_nodes kn (n # ns) m =
     key_nodes kn ns (case m (kn n) of None \<Rightarrow> m(kn n \<mapsto> n) | Some _ \<Rightarrow> m)"

fun bind_data ::
  "('d \<Rightarrow> string) \<Rightarrow> 'd list \<Rightarrow> (string \<rightharpoonup> 'n) \<Rightarrow> 'd list \<times> ('n \<times> 'd) list \<times> (string \<rightharpoonup> 'n)" where
  "bind_data kd [] m = ([], [], m)"
| "bind_data kd (d # ds) m =
     (case m (kd d) of
        Some n \<Rightarrow>
          (case bind_data kd ds (m(kd d := None)) of
             (enter, update, rest) \<Rightarrow> (enter, (n, d) # update, rest))
      | None \<Rightarrow>
          (case bind_data kd ds m of
             (enter, update, rest) \<Rightarrow> (d # enter, update, rest)))"

fun exit_nodes :: "('n \<Rightarrow> string) \<Rightarrow> 'n list \<Rightarrow> string set \<Rightarrow> (string \<rightharpoonup> 'n) \<Rightarrow> 'n list" where
  "exit_nodes kn [] seen rest = []"
| "exit_nodes kn (n # ns) seen rest =
     (if kn n \<in> seen \<or> rest (kn n) \<noteq> None then [n] else [])
       @ exit_nodes kn ns (insert (kn n) seen) rest"

definition data_join ::
  "('n \<Rightarrow> string) \<Rightarrow> ('d \<Rightarrow> string) \<Rightarrow> 'n list \<Rightarrow> 'd list \<Rightarrow> 'd list \<times> ('n \<times> 'd) list \<times> 'n list" where
  "data_join kn kd els data =
     (case bind_data kd data (key_nodes kn els Map.empty) of
        (enter, update, rest) \<Rightarrow> (enter, update, exit_nodes kn els {} rest))"

text \<open>
  The outcome of one delta pass: the ids tagged \<^verbatim>\<open>'new'\<close>, \<^verbatim>\<open>'updated'\<close> and
  \<^verbatim>\<open>'removed'\<close>.
\<close>

record delta =
  added :: "string list"
  updated :: "string list"
  removed :: "string list"

text \<open>
  \<^verbatim>\<open>renderEdgesDelta\<close>: \<open>allEdges\<close> is the array the source collects with
  \<^verbatim>\<open>traverse(this.layout, ...)\<close> and \<^verbatim>\<open>concat\<close>, the edges of the root first. It is
  joined, by edge id, with the data of the \<^verbatim>\<open>.edge\<close> elements already in the chart
  (\<open>bound\<close>); exit is tagged removed, enter new, the joined elements updated.
\<close>

definition allEdges :: "layout \<Rightarrow> edge list" where
  "allEdges lay = edges lay @ concat (map nedges (traverse_layout lay))"

definition renderEdgesDelta :: "edge list \<Rightarrow> layout \<Rightarrow> delta" where
  "renderEdgesDelta bound lay =
     (case data_join eid eid bound (allEdges lay) of
        (newEdges, edgesGroup, exitEdges) \<Rightarrow>
          \<lparr>added = map eid newEdges,
           updated = map (\<lambda>(el, d). eid d) edgesGroup,
           removed = map eid exitEdges\<rparr>)"

text \<open>
  \<^verbatim>\<open>renderNodesDelta\<close> joins one sibling group at a time. An \<open>element\<close> is a
  \<^verbatim>\<open>g.node\<close> of the chart: the id of its bound datum and the \<^verbatim>\<open>g.node\<close> children of its
  \<^verbatim>\<open>.node-children\<close> group. \<open>recursiveBuild\<close> is \<^verbatim>\<open>_recursiveBuild(selection, childrenNodes)\<close>:
  it joins the child elements of the selection with \<^verbatim>\<open>childrenNodes\<close>, tags exit, enter
  and update, and recurses into the \<^verbatim>\<open>nodes\<close> of every entered datum (under a fresh
  element, which has no children) and then of every updated datum. For an absent
  \<^verbatim>\<open>childrenNodes\<close> the source returns at once, where the join with the empty list sends
  the child elements to exit; the two agree on an element without child elements.
\<close>

datatype element = Element (datum_id: string) (children: "element list")

lemma bind_data_subset:
  "bind_data kd ds m = (enter, update, rest) \<Longrightarrow> set enter \<subseteq> set ds \<and> snd ` set update \<subseteq> set ds"
proof (induction ds arbitrary: m enter update rest)
  case Nil
  then show ?case by simp
next
  case (Cons d ds)
  show ?case
  proof (cases "m (kd d)")
    case None
    obtain en up r where b: "bind_data kd ds m = (en, up, r)"
      by (cases "bind_data kd ds m") auto
    from Cons.IH[OF b] Cons.prems None b show ?thesis by auto
  next
    case (Some n)
    obtain en up r where b: "bind_data kd ds (m(kd d := None)) = (en, up, r)"
      by (cases "bind_data kd ds (m(kd d := None))") auto
    from Cons.IH[OF b] Cons.prems Some b show ?thesis by fastforce
  qed
qed

lemma data_join_subset:
  "data_join kn kd els data = (enter, update, exit) \<Longrightarrow>
   set enter \<subseteq> set data \<and> snd ` set update \<subseteq> set data"
  by (auto simp: data_join_def split: prod.splits dest!: bind_data_subset)

lemma size_nnodes_less: "d \<in> set ds \<Longrightarrow> size_list size (nnodes d) < size_list size ds"
proof (induction ds)
  case Nil
  then show ?case by simp
next
  case (Cons a ds)
  then show ?case by (cases d) auto
qed

function recursiveBuild :: "element list \<Rightarrow> node list \<Rightarrow> delta" where
  "recursiveBuild els childrenNodes =
     (case data_join datum_id nid els childrenNodes of
        (newNodes, nodesGroup, exitNodes) \<Rightarrow>
          (let below = map (\<lambda>d. recursiveBuild [] (nnodes d)) newNodes
                     @ map (\<lambda>(el, d). recursiveBuild (children el) (nnodes d)) nodesGroup
           in \<lparr>added = map nid newNodes @ concat (map added below),
               updated = map (\<lambda>(el, d). nid d) nodesGroup @ concat (map updated below),
               removed = map datum_id exitNodes @ concat (map removed below)\<rparr>))"
  by pat_completeness auto

termination recursiveBuild
proof (relation "measure (\<lambda>(els, ns). size_list size ns)")
  show "wf (measure (\<lambda>(els, ns). size_list size ns))"
    by simp
next
  fix els :: "element list" and childrenNodes :: "node list" and newNodes y d
  assume j: "(newNodes, y) = data_join datum_id nid els childrenNodes" and d: "d \<in> set newNodes"
  have "data_join datum_id nid els childrenNodes = (newNodes, fst y, snd y)"
    using j by (metis prod.collapse)
  from data_join_subset[OF this] d have "d \<in> set childrenNodes"
    by auto
  then show "(([], nnodes d), els, childrenNodes) \<in> measure (\<lambda>(els, ns). size_list size ns)"
    using size_nnodes_less[of d childrenNodes] by simp
next
  fix els :: "element list" and childrenNodes :: "node list"
    and newNodes y nodesGroup exitNodes z el d
  assume j: "(newNodes, y) = data_join datum_id nid els childrenNodes"
    and y: "(nodesGroup, exitNodes) = y" and z: "z \<in> set nodesGroup" and eld: "(el, d) = z"
  have "data_join datum_id nid els childrenNodes = (newNodes, nodesGroup, exitNodes)"
    using j y by simp
  from data_join_subset[OF this] z eld have "d \<in> set childrenNodes"
    by force
  then show "((children el, nnodes d), els, childrenNodes) \<in> measure (\<lambda>(els, ns). size_list size ns)"
    using size_nnodes_less[of d childrenNodes] by simp
qed

declare recursiveBuild.simps [simp del]

definition renderNodesDelta :: "element list \<Rightarrow> layout \<Rightarrow> delta" where
  "renderNodesDelta chart lay = recursiveBuild chart (nodes lay)"

text \<open>
  The chart after a graph has been rendered: one element per node, nested as the nodes
  are, and the edges of all levels bound to the \<^verbatim>\<open>.edge\<close> elements.
\<close>

fun mirror :: "node \<Rightarrow> element" where
  "mirror (Node i w h ns es c) = Element i (map mirror ns)"

section \<open>Renderer state\<close>

text \<open>
  The fields of \<^verbatim>\<open>SVGRenderer\<close> that the modelled methods read or write: the raw data
  (\<^verbatim>\<open>this.data\<close>), the layout (\<^verbatim>\<open>this.layout\<close>, \<^verbatim>\<open>null\<close> until a layout has run), and the
  two trackers of collapse. An entry of \<^verbatim>\<open>collapseTracker\<close> is the object
  \<^verbatim>\<open>{ edgeMap, nodes }\<close>; a value of \<^verbatim>\<open>edgeMap\<close> is the object \<^verbatim>\<open>originalEdge\<close>, which has a
  \<^verbatim>\<open>source\<close> and a \<^verbatim>\<open>target\<close> only for the endpoints that were rewritten.

  Methods that can throw return \<open>error + _\<close>. A \<^verbatim>\<open>throw new Error(msg)\<close> is \<open>Error msg\<close>, a
  property read on \<^verbatim>\<open>null\<close> or \<^verbatim>\<open>undefined\<close> is \<open>TypeError\<close>, and the layout adapter is
  a parameter that may fail with an error of its own.
\<close>

datatype error = Error string | TypeError

record original_edge =
  orig_source :: "string option"
  orig_target :: "string option"

record collapse_entry =
  edgeMap :: "string \<rightharpoonup> original_edge"
  entry_nodes :: "node list option"

record 'd renderer =
  rdata :: 'd
  layout :: "layout option"
  collapseTracker :: "string \<rightharpoonup> collapse_entry"
  hiddenEdges :: "string \<rightharpoonup> edge list"

record 'd adapter =
  makeRenderingGraph :: "'d \<Rightarrow> error + layout"
  run :: "layout \<Rightarrow> error + layout"

section \<open>Render orchestrator\<close>

text \<open>
  \<^verbatim>\<open>setData\<close>, \<^verbatim>\<open>runLayout\<close> and the part of \<^verbatim>\<open>render\<close> that acquires the layout, as
  \<^verbatim>\<open>svg-renderer.js\<close> has them: \<^verbatim>\<open>setData\<close> stores the data and clears the layout, and
  \<^verbatim>\<open>render\<close> runs the layout adapter on \<^verbatim>\<open>this.data\<close> when there is no layout. What follows
  in \<^verbatim>\<open>render\<close> draws on the chart and leaves these fields alone.
\<close>

definition setData :: "'d \<Rightarrow> 'd renderer \<Rightarrow> 'd renderer" where
  "setData d st = st\<lparr>rdata := d, layout := None\<rparr>"

definition runLayout :: "'d adapter \<Rightarrow> 'd renderer \<Rightarrow> error + layout" where
  "runLayout ad st =
     (case makeRenderingGraph ad (rdata st) of
        Inl e \<Rightarrow> Inl e
      | Inr renderingGraph \<Rightarrow> run ad renderingGraph)"

definition render :: "'d adapter \<Rightarrow> 'd renderer \<Rightarrow> error + 'd renderer" where
  "render ad st =
     (case layout st of
        None \<Rightarrow>
          (case runLayout ad st of
             Inl e \<Rightarrow> Inl e
           | Inr l \<Rightarrow> Inr (st\<lparr>layout := Some l\<rparr>))
      | Some l \<Rightarrow> Inr st)"

text \<open>
  The other source file of the renderer class has no \<^verbatim>\<open>this.data\<close>: its \<^verbatim>\<open>setData\<close>
  computes the rendering graph at once, and its \<^verbatim>\<open>render\<close> throws when there is no
  layout and runs the adapter on the layout otherwise.
\<close>

definition setData_unnamed :: "'d adapter \<Rightarrow> 'd \<Rightarrow> 'd renderer \<Rightarrow> error + 'd renderer" where
  "setData_unnamed ad d st =
     (case makeRenderingGraph ad d of
        Inl e \<Rightarrow> Inl e
      | Inr g \<Rightarrow> Inr (st\<lparr>layout := Some g\<rparr>))"

definition render_unnamed :: "'d adapter \<Rightarrow> 'd renderer \<Rightarrow> error + 'd renderer" where
  "render_unnamed ad st =
     (case layout st of
        None \<Rightarrow> Inl (Error ''Layout data not set'')
      | Some l \<Rightarrow>
          (case run ad l of
             Inl e \<Rightarrow> Inl e
           | Inr l' \<Rightarrow> Inr (st\<lparr>layout := Some l'\<rparr>)))"

text \<open>
  The renderer as its constructor leaves it: \<^verbatim>\<open>data = {}\<close> (here any value \<open>d\<close>), no
  layout, empty trackers.
\<close>

definition new_renderer :: "'d \<Rightarrow> 'd renderer" where
  "new_renderer d = \<lparr>rdata = d, layout = None, collapseTracker = Map.empty, hiddenEdges = Map.empty\<rparr>"

section \<open>Collapse and expand\<close>

text \<open>
  \<^verbatim>\<open>collapse\<close> and \<^verbatim>\<open>expand\<close> find the node through the chart
  (\<^verbatim>\<open>chart.selectAll('.node').filter(d => d.id === nodeId)\<close>). The model covers a renderer
  whose chart shows its layout, as it does after every render: the \<^verbatim>\<open>.node\<close> elements
  mirror the nodes of the layout, in document order, each bound to its node. Before the
  first render there is no chart and both methods throw a \<open>TypeError\<close>.

  \<open>childrenNodeIds\<close> is \<^verbatim>\<open>node.selectAll('.node').data().map(d => d.id)\<close>: the ids of all
  nodes nested below the nodes that carry \<^verbatim>\<open>nodeId\<close>.
\<close>

definition childrenNodeIds :: "layout \<Rightarrow> string \<Rightarrow> string list" where
  "childrenNodeIds lay nodeId =
     concat (map (\<lambda>n. map nid (concat (map traverse (nnodes n))))
                 (filter (\<lambda>d. nid d = nodeId) (traverse_layout lay)))"

text \<open>
  The loop over the edges that \<^verbatim>\<open>_.remove\<close> left in an edge list: an endpoint inside
  \<^verbatim>\<open>childrenNodeIds\<close> is saved in \<^verbatim>\<open>originalEdge\<close> and rewritten to \<^verbatim>\<open>nodeId\<close>; a non-empty
  \<^verbatim>\<open>originalEdge\<close> is stored in \<^verbatim>\<open>edgeMap\<close> under the edge id.
\<close>

fun rewrite_edges ::
  "string \<Rightarrow> string list \<Rightarrow> edge list \<Rightarrow> (string \<rightharpoonup> original_edge)
     \<Rightarrow> edge list \<times> (string \<rightharpoonup> original_edge)" where
  "rewrite_edges nodeId cids [] em = ([], em)"
| "rewrite_edges nodeId cids (e # es) em =
     (let src_in = source e \<in> set cids;
          tgt_in = target e \<in> set cids;
          originalEdge = \<lparr>orig_source = (if src_in then Some (source e) else None),
                          orig_target = (if tgt_in then Some (target e) else None)\<rparr>;
          e' = e\<lparr>source := (if src_in then nodeId else source e),
                 target := (if tgt_in then nodeId else target e)\<rparr>;
          em' = (if src_in \<or> tgt_in then em(eid e \<mapsto> originalEdge) else em)
      in case rewrite_edges nodeId cids es em' of (es', em'') \<Rightarrow> (e' # es', em''))"

text \<open>
  The part of the traversal callback that runs on one edge list (\<^verbatim>\<open>node.edges\<close> of the
  root or of a node): \<^verbatim>\<open>_.remove\<close> takes out the edges with both endpoints inside, a
  non-empty result is assigned to \<^verbatim>\<open>hiddenEdges[nodeId]\<close>, and the remaining edges are
  rewritten.
\<close>

type_synonym collapse_state = "collapse_entry \<times> (string \<rightharpoonup> edge list)"

definition collapse_edges ::
  "string \<Rightarrow> string list \<Rightarrow> edge list \<Rightarrow> collapse_state \<Rightarrow> edge list \<times> collapse_state" where
  "collapse_edges nodeId cids es st =
     (case st of (entry, hidden_store) \<Rightarrow>
        (let inside = (\<lambda>e. source e \<in> set cids \<and> target e \<in> set cids);
             hidden = filter inside es;
             kept = filter (\<lambda>e. \<not> inside e) es;
             hidden_store' = (if hidden = [] then hidden_store else hidden_store(nodeId \<mapsto> hidden))
         in case rewrite_edges nodeId cids kept (edgeMap entry) of
              (kept', em') \<Rightarrow> (kept', (entry\<lparr>edgeMap := em'\<rparr>, hidden_store'))))"

text \<open>
  The walk \<^verbatim>\<open>traverse(this.layout, callback)\<close> of \<^verbatim>\<open>collapse\<close>, below the root. On the
  node with the id the callback sets the proxy size, saves \<^verbatim>\<open>node.nodes\<close> in the tracker,
  empties \<^verbatim>\<open>node.nodes\<close> and sets \<^verbatim>\<open>collapsed\<close>; then it handles the node's edge list. The
  walk descends into the nodes that the object has after the callback, so it does not
  enter the saved children.
\<close>

fun collapse_node :: "string \<Rightarrow> string list \<Rightarrow> node \<Rightarrow> collapse_state \<Rightarrow> node \<times> collapse_state"
  and collapse_nodes :: "string \<Rightarrow> string list \<Rightarrow> node list \<Rightarrow> collapse_state \<Rightarrow> node list \<times> collapse_state"
where
  "collapse_node nodeId cids (Node i w h ns es c) st =
     (if i = nodeId then
        (case collapse_edges nodeId cids es ((fst st)\<lparr>entry_nodes := Some ns\<rparr>, snd st) of
           (es', st') \<Rightarrow> (Node i 40 40 [] es' (Some True), st'))
      else
        (case collapse_edges nodeId cids es st of
           (es', st') \<Rightarrow>
             (case collapse_nodes nodeId cids ns st' of
                (ns', st'') \<Rightarrow> (Node i w h ns' es' c, st''))))"
| "collapse_nodes nodeId cids [] st = ([], st)"
| "collapse_nodes nodeId cids (n # ns) st =
     (case collapse_node nodeId cids n st of
        (n', st') \<Rightarrow>
          (case collapse_nodes nodeId cids ns st' of
             (ns', st'') \<Rightarrow> (n' # ns', st'')))"

text \<open>
  \<^verbatim>\<open>collapse(nodeId)\<close>. The tracker entry is created before the test for a leaf. The
  walk starts at the root object, which has no id, so only its edge list is handled
  there. The call ends with the layout adapter's \<^verbatim>\<open>run\<close> and a render.
\<close>

definition collapse :: "'d adapter \<Rightarrow> string \<Rightarrow> 'd renderer \<Rightarrow> error + 'd renderer" where
  "collapse ad nodeId st =
     (case layout st of
        None \<Rightarrow> Inl TypeError
      | Some lay \<Rightarrow>
          (let cids = childrenNodeIds lay nodeId;
               fresh = \<lparr>edgeMap = Map.empty, entry_nodes = None\<rparr>
           in if cids = [] then Inr (st\<lparr>collapseTracker := (collapseTracker st)(nodeId \<mapsto> fresh)\<rparr>)
              else
                (case collapse_edges nodeId cids (edges lay) (fresh, hiddenEdges st) of
                   (es', st') \<Rightarrow>
                     (case collapse_nodes nodeId cids (nodes lay) st' of
                        (ns', entry, hidden_store) \<Rightarrow>
                          (case run ad (lay\<lparr>nodes := ns', edges := es'\<rparr>) of
                             Inl e \<Rightarrow> Inl e
                           | Inr lay' \<Rightarrow>
                               Inr (st\<lparr>layout := Some lay',
                                       collapseTracker := (collapseTracker st)(nodeId \<mapsto> entry),
                                       hiddenEdges := hidden_store\<rparr>))))))"

text \<open>
  \<^verbatim>\<open>expand(nodeId)\<close>. \<open>replace_first\<close> is the assignment to \<^verbatim>\<open>node.datum()\<close>, the datum of
  the first element with the id: the first node with the id, in document order, is
  replaced.
\<close>

fun replace_first :: "string \<Rightarrow> node \<Rightarrow> node \<Rightarrow> node \<times> bool"
  and replace_first_list :: "string \<Rightarrow> node \<Rightarrow> node list \<Rightarrow> node list \<times> bool"
where
  "replace_first i d (Node j w h ns es c) =
     (if j = i then (d, True)
      else (case replace_first_list i d ns of (ns', found) \<Rightarrow> (Node j w h ns' es c, found)))"
| "replace_first_list i d [] = ([], False)"
| "replace_first_list i d (n # ns) =
     (case replace_first i d n of
        (n', found) \<Rightarrow>
          (if found then (n' # ns, True)
           else (case replace_first_list i d ns of (ns', found') \<Rightarrow> (n' # ns', found'))))"

text \<open>
  The callback of \<^verbatim>\<open>traverse(node.datum(), ...)\<close> that restores the hidden edges. The
  state is the edge list of the root, the hidden-edge store, and a flag that is set when
  \<^verbatim>\<open>concat\<close> receives \<^verbatim>\<open>undefined\<close> (no entry for \<^verbatim>\<open>nodeId\<close> is left in the store): the
  root edge list then holds \<^verbatim>\<open>undefined\<close>, and the loop that reverts the edges throws on
  it.
\<close>

type_synonym restore_state = "edge list \<times> (string \<rightharpoonup> edge list) \<times> bool"

definition restore_visit :: "string \<Rightarrow> node \<Rightarrow> restore_state \<Rightarrow> restore_state" where
  "restore_visit nodeId n st =
     (case st of (root_edges, hidden_store, broken) \<Rightarrow>
        (if hidden_store (nid n) \<noteq> None \<and> ncollapsed n = Some False then
           (case hidden_store nodeId of
              None \<Rightarrow> (root_edges, hidden_store, True)
            | Some hidden \<Rightarrow> (root_edges @ hidden, hidden_store(nodeId := None), broken))
         else st))"

text \<open>
  The loop that reverts the adjusted edges. \<^verbatim>\<open>a || b\<close> takes \<^verbatim>\<open>b\<close> when \<^verbatim>\<open>a\<close> is
  \<^verbatim>\<open>undefined\<close> or the empty string.
\<close>

definition or_else :: "string option \<Rightarrow> string \<Rightarrow> string" where
  "or_else a b = (case a of None \<Rightarrow> b | Some v \<Rightarrow> (if v = [] then b else v))"

definition revert_edge :: "(string \<rightharpoonup> original_edge) \<Rightarrow> edge \<Rightarrow> edge" where
  "revert_edge em e =
     (case em (eid e) of
        None \<Rightarrow> e
      | Some original \<Rightarrow>
          e\<lparr>target := or_else (orig_target original) (target e),
            source := or_else (orig_source original) (source e)\<rparr>)"

fun revert_node :: "(string \<rightharpoonup> original_edge) \<Rightarrow> node \<Rightarrow> node" where
  "revert_node em (Node i w h ns es c) =
     Node i w h (map (revert_node em) ns) (map (revert_edge em) es) c"

definition expand :: "'d adapter \<Rightarrow> string \<Rightarrow> 'd renderer \<Rightarrow> error + 'd renderer" where
  "expand ad nodeId st =
     (case layout st of
        None \<Rightarrow> Inl TypeError
      | Some lay \<Rightarrow>
          (case List.find (\<lambda>d. nid d = nodeId) (traverse_layout lay) of
             None \<Rightarrow> Inl TypeError
           | Some datum \<Rightarrow>
               (case collapseTracker st nodeId of
                  None \<Rightarrow> Inl TypeError
                | Some entry \<Rightarrow>
                    (let datum' = Node (nid datum) (nwidth datum) (nheight datum)
                                    (case entry_nodes entry of None \<Rightarrow> [] | Some ns \<Rightarrow> ns)
                                    (nedges datum) (Some False);
                         ns1 = fst (replace_first_list nodeId datum' (nodes lay))
                     in case fold (restore_visit nodeId) (traverse datum')
                               (edges lay, hiddenEdges st, False) of
                          (root_edges, hidden_store, broken) \<Rightarrow>
                            (if broken then Inl TypeError
                             else
                               (case run ad (lay\<lparr>nodes := map (revert_node (edgeMap entry)) ns1,
                                                 edges := map (revert_edge (edgeMap entry)) root_edges\<rparr>) of
                                  Inl e \<Rightarrow> Inl e
                                | Inr lay' \<Rightarrow>
                                    Inr (st\<lparr>layout := Some lay',
                                            collapseTracker := (collapseTracker st)(nodeId := None),
                                            hiddenEdges := hidden_store\<rparr>)))))))"

section \<open>Viewport and culling\<close>

text \<open>
  \<^verbatim>\<open>d3.zoomTransform\<close> gives the scale \<^verbatim>\<open>k\<close> and the translation \<^verbatim>\<open>x, y\<close>. Numbers are
  reals here; the zoom behaviour keeps \<^verbatim>\<open>k\<close> within its positive scale extent.
  \<^verbatim>\<open>boundary()\<close> returns \<^verbatim>\<open>{ x1, y1, x2, y2 }\<close>, here a tuple in that order; it reads the
  width and height of the layout.
\<close>

record transform =
  scale_k :: real
  translate_x :: real
  translate_y :: real

definition boundary :: "transform \<Rightarrow> layout \<Rightarrow> real \<times> real \<times> real \<times> real" where
  "boundary t lay =
     ((0 - translate_x t) / scale_k t,
      (0 - translate_y t) / scale_k t,
      (width lay - translate_x t) / scale_k t,
      (height lay - translate_y t) / scale_k t)"

text \<open>
  \<^verbatim>\<open>cullEdges()\<close> visits every \<^verbatim>\<open>.edge\<close> element of the chart and sets its opacity to 0
  when the test of the source holds. An element is its edge and its opacity. A point is
  the pair of its \<^verbatim>\<open>x\<close> and \<^verbatim>\<open>y\<close>; \<^verbatim>\<open>_.first\<close> and \<^verbatim>\<open>_.last\<close> of an empty \<^verbatim>\<open>points\<close> array
  are \<^verbatim>\<open>undefined\<close>, and reading \<^verbatim>\<open>source.x\<close> then throws.
\<close>

definition cull_test :: "real \<times> real \<times> real \<times> real \<Rightarrow> edge \<Rightarrow> error + bool" where
  "cull_test b d =
     (case b of (x1, y1, x2, y2) \<Rightarrow>
        (case points d of
           [] \<Rightarrow> Inl TypeError
         | p # ps \<Rightarrow>
             (let s = p; t = last (p # ps)
              in Inr ((fst s < x1 \<or> fst s > x2 \<or> snd s < y1 \<or> snd s > y2) \<and>
                      (fst t < x1 \<or> fst t > x2 \<or> snd t < y1 \<or> snd t > y2)))))"

fun cull_each :: "real \<times> real \<times> real \<times> real \<Rightarrow> (edge \<times> real) list \<Rightarrow> error + (edge \<times> real) list" where
  "cull_each b [] = Inr []"
| "cull_each b ((d, opacity) # rest) =
     (case cull_test b d of
        Inl e \<Rightarrow> Inl e
      | Inr hide \<Rightarrow>
          (case cull_each b rest of
             Inl e \<Rightarrow> Inl e
           | Inr rest' \<Rightarrow> Inr ((d, if hide then 0 else opacity) # rest')))"

definition cullEdges ::
  "transform \<Rightarrow> layout option \<Rightarrow> (edge \<times> real) list \<Rightarrow> error + (edge \<times> real) list" where
  "cullEdges t lay chart_edges =
     (case lay of
        None \<Rightarrow> Inl TypeError
      | Some l \<Rightarrow> cull_each (boundary t l) chart_edges)"

text \<open>
  A collapse followed at once by the expand of the same node; the first error ends the
  sequence.
\<close>

definition collapse_then_expand :: "'d adapter \<Rightarrow> string \<Rightarrow> 'd renderer \<Rightarrow> error + 'd renderer" where
  "collapse_then_expand ad nodeId st =
     (case collapse ad nodeId st of
        Inl e \<Rightarrow> Inl e
      | Inr st' \<Rightarrow> expand ad nodeId st')"

section \<open>Properties of the trace engine\<close>

lemma set_uniq: "set (uniq xs) = set xs"
  by (induction xs rule: uniq.induct) auto

lemma distinct_uniq: "distinct (uniq xs)"
  by (induction xs rule: uniq.induct) (auto simp: set_uniq)

text \<open>
  Every traced edge is taken from the edge list handed to \<open>backtrack\<close> (or from the
  pending part of the current loop).
\<close>

lemma backtrack_traced_subset:
  "set (snd (backtrack es i st)) \<subseteq> set (snd st) \<union> set es"
  "set (snd (forEach_edge es pending st)) \<subseteq> set (snd st) \<union> set pending \<union> set es"
proof (induction es i st and es pending st rule: backtrack_forEach_edge.induct)
  case (1 es i checked tracedEdges)
  then show ?case by (auto simp: backtrack.simps)
next
  case (2 es st)
  then show ?case by (simp add: forEach_edge.simps)
next
  case (3 es e rest checked tracedEdges)
  then show ?case by (auto simp: forEach_edge.simps)
qed

text \<open>
  A node id is expanded at most once, so an edge is pushed at most once: the number of
  traced edges plus the number of edges whose target is still unchecked never grows,
  except by the edges the running loop still has to push.
\<close>

definition trace_potential :: "edge list \<Rightarrow> trace_state \<Rightarrow> nat" where
  "trace_potential es st = length (snd st) + length (filter (\<lambda>e. target e \<notin> fst st) es)"

lemma unchecked_split:
  "i \<notin> checked \<Longrightarrow>
   length (filter (\<lambda>e. target e \<notin> insert i checked) es) + length (filter (\<lambda>e. target e = i) es)
     = length (filter (\<lambda>e. target e \<notin> checked) es)"
  by (induction es) auto

lemma backtrack_potential:
  "trace_potential es (backtrack es i st) \<le> trace_potential es st"
  "trace_potential es (forEach_edge es pending st) \<le> trace_potential es st + length pending"
proof (induction es i st and es pending st rule: backtrack_forEach_edge.induct)
  case (1 es i checked tracedEdges)
  show ?case
  proof (cases "i \<in> checked")
    case True
    then show ?thesis by (simp add: backtrack.simps)
  next
    case False
    have "trace_potential es (insert i checked, tracedEdges) + length (filter (\<lambda>e. target e = i) es)
          = trace_potential es (checked, tracedEdges)"
      using unchecked_split[OF False, of es] by (simp add: trace_potential_def)
    with 1 False show ?thesis by (simp add: backtrack.simps)
  qed
next
  case (2 es st)
  then show ?case by (simp add: forEach_edge.simps)
next
  case (3 es e rest checked tracedEdges)
  have "trace_potential es (checked, tracedEdges @ [e]) = Suc (trace_potential es (checked, tracedEdges))"
    by (simp add: trace_potential_def)
  with 3 show ?case by (simp add: forEach_edge.simps)
qed

lemma backtrack_length_bound:
  "length (snd (backtrack es i ({}, []))) \<le> length es"
proof -
  have "length (snd (backtrack es i ({}, []))) \<le> trace_potential es (backtrack es i ({}, []))"
    by (simp add: trace_potential_def)
  also have "\<dots> \<le> trace_potential es ({}, [])"
    by (rule backtrack_potential(1))
  also have "\<dots> = length es"
    by (simp add: trace_potential_def)
  finally show ?thesis .
qed

subsection \<open>Example graphs for the trace engine\<close>

definition plain_edge :: "string \<Rightarrow> string \<Rightarrow> string \<Rightarrow> edge" where
  "plain_edge i s t = \<lparr>eid = i, source = s, target = t, points = []\<rparr>"

definition leaf :: "string \<Rightarrow> node" where
  "leaf i = Node i 10 10 [] [] None"

definition chain_graph :: layout where
  "chain_graph = \<lparr>width = 100, height = 100,
     nodes = [leaf ''A'', leaf ''B'', leaf ''C''],
     edges = [plain_edge ''e1'' ''A'' ''B'', plain_edge ''e2'' ''B'' ''C'']\<rparr>"

definition cycle_graph :: layout where
  "cycle_graph = \<lparr>width = 100, height = 100,
     nodes = [leaf ''A'', leaf ''B''],
     edges = [plain_edge ''e1'' ''A'' ''B'', plain_edge ''e2'' ''B'' ''A'',
              plain_edge ''e3'' ''A'' ''A'']\<rparr>"

definition nested_edge_graph :: layout where
  "nested_edge_graph = \<lparr>width = 100, height = 100,
     nodes = [Node ''P'' 50 50 [leaf ''X'', leaf ''Y''] [plain_edge ''e1'' ''X'' ''Y''] None],
     edges = []\<rparr>"

text \<open>
  C5. For every graph, cyclic or not, \<open>trace\<close> returns (the recursion of \<open>backtrack\<close> is
  well-founded: the termination proof above ranks it by the ids not yet checked), it
  pushes at most as many edges as the root edge list holds, and the node-id list of its
  result has no duplicate.
\<close>

theorem trace_terminates_nodes_distinct:
  "distinct (snd (trace lay nodeId)) \<and>
   length (fst (trace lay nodeId)) \<le> length (case lay of None \<Rightarrow> [] | Some l \<Rightarrow> edges l)"
  unfolding trace_def Let_def
  by (simp only: fst_conv snd_conv length_map distinct_uniq backtrack_length_bound simp_thms)

theorem trace_terminates_nodes_distinct_witness:
  "trace (Some cycle_graph) ''A'' =
     ([(''B'', ''A''), (''A'', ''B''), (''A'', ''A'')], [''B'', ''A'']) \<and>
   distinct (snd (trace (Some cycle_graph) ''A'')) \<and>
   length (fst (trace (Some cycle_graph) ''A'')) \<le> 3"
  using trace_terminates_nodes_distinct [of "Some cycle_graph" "''A''"]
  by (simp add: trace_def cycle_graph_def plain_edge_def backtrack.simps forEach_edge.simps)

text \<open>
  C6. On the graph with nodes A, B, C and the edges e1 from A to B and e2 from B to C,
  \<open>trace\<close> of C does not return the edges A-B, B-C and the nodes A, B, C in that order:
  the walk goes backward from C, so it returns the edge from B to C first, then the edge
  from A to B, and the node ids in the order B, A, C (the sources of the traced edges,
  then their targets, first occurrences kept).
\<close>

theorem trace_chain_counterexample:
  "trace (Some chain_graph) ''C'' \<noteq> ([(''A'', ''B''), (''B'', ''C'')], [''A'', ''B'', ''C''])"
  by (simp add: trace_def chain_graph_def plain_edge_def backtrack.simps forEach_edge.simps)

theorem trace_chain_discovery_order:
  "trace (Some chain_graph) ''C'' = ([(''B'', ''C''), (''A'', ''B'')], [''B'', ''A'', ''C''])"
  by (simp add: trace_def chain_graph_def plain_edge_def backtrack.simps forEach_edge.simps)

text \<open>
  C10. \<open>trace\<close> reads the edge list of the root object only. Without a layout the result
  is empty; replacing the nested nodes (and with them every local edge list) leaves the
  result unchanged; every traced pair is the source/target pair of a root edge and every
  node id of the result is an endpoint of a root edge.
\<close>

theorem trace_root_edges_only:
  "trace None nodeId = ([], []) \<and>
   trace (Some (l\<lparr>nodes := ns\<rparr>)) nodeId = trace (Some l) nodeId \<and>
   set (fst (trace (Some l) nodeId)) \<subseteq> (\<lambda>e. (source e, target e)) ` set (edges l) \<and>
   set (snd (trace (Some l) nodeId)) \<subseteq> source ` set (edges l) \<union> target ` set (edges l)"
proof -
  have sub: "set (snd (backtrack (edges l) nodeId ({}, []))) \<subseteq> set (edges l)"
    using backtrack_traced_subset(1)[of "edges l" nodeId "({}, [])"] by simp
  have none: "trace None nodeId = ([], [])"
    by (simp add: trace_def backtrack.simps forEach_edge.simps)
  have same: "trace (Some (l\<lparr>nodes := ns\<rparr>)) nodeId = trace (Some l) nodeId"
    by (simp add: trace_def)
  have pairs: "set (fst (trace (Some l) nodeId)) \<subseteq> (\<lambda>e. (source e, target e)) ` set (edges l)"
    using sub by (auto simp: trace_def Let_def)
  have ids: "set (snd (trace (Some l) nodeId)) \<subseteq> source ` set (edges l) \<union> target ` set (edges l)"
    using sub by (auto simp: trace_def Let_def set_uniq)
  from none same pairs ids show ?thesis by blast
qed

theorem trace_root_edges_only_witness:
  "trace (Some nested_edge_graph) ''Y'' = ([], []) \<and>
   trace (Some (nested_edge_graph\<lparr>nodes := []\<rparr>)) ''Y'' = trace (Some nested_edge_graph) ''Y''"
  using trace_root_edges_only [where nodeId = "''Y''" and l = nested_edge_graph and ns = "[]"]
  by (simp add: trace_def nested_edge_graph_def backtrack.simps forEach_edge.simps)

section \<open>Properties of the diff engine\<close>

text \<open>
  With distinct keys among the elements and among the data, the join is the contract of
  the spec: a datum enters when no element has its key and joins the element of its key
  otherwise; an element exits when no datum has its key.
\<close>

lemma key_nodes_find:
  "key_nodes kn ns m k = (case m k of Some n \<Rightarrow> Some n | None \<Rightarrow> List.find (\<lambda>n. kn n = k) ns)"
  by (induction ns arbitrary: m) (auto split: option.splits)

lemma key_nodes_empty_None: "key_nodes kn ns Map.empty k = None \<longleftrightarrow> k \<notin> kn ` set ns"
  by (auto simp: key_nodes_find find_None_iff)

lemma bind_data_distinct:
  "distinct (map kd ds) \<Longrightarrow>
   bind_data kd ds m =
     (filter (\<lambda>d. m (kd d) = None) ds,
      map (\<lambda>d. (the (m (kd d)), d)) (filter (\<lambda>d. m (kd d) \<noteq> None) ds),
      (\<lambda>k. if k \<in> kd ` set ds then None else m k))"
proof (induction ds arbitrary: m)
  case Nil
  then show ?case by simp
next
  case (Cons d ds)
  from Cons.prems have fresh: "\<And>x. x \<in> set ds \<Longrightarrow> kd x \<noteq> kd d" and dist: "distinct (map kd ds)"
    by (auto simp: image_iff)
  show ?case
  proof (cases "m (kd d)")
    case None
    then have "(\<lambda>k. if k \<in> kd ` set ds then None else m k)
             = (\<lambda>k. if k \<in> kd ` set (d # ds) then None else m k)"
      by auto
    with None Cons.IH[OF dist, of m] show ?thesis by simp
  next
    case (Some n)
    have f1: "filter (\<lambda>x. (m(kd d := None)) (kd x) = None) ds = filter (\<lambda>x. m (kd x) = None) ds"
      using fresh by (intro filter_cong) auto
    have f2: "filter (\<lambda>x. (m(kd d := None)) (kd x) \<noteq> None) ds = filter (\<lambda>x. m (kd x) \<noteq> None) ds"
      using fresh by (intro filter_cong) auto
    have f3: "map (\<lambda>x. (the ((m(kd d := None)) (kd x)), x)) (filter (\<lambda>x. m (kd x) \<noteq> None) ds)
            = map (\<lambda>x. (the (m (kd x)), x)) (filter (\<lambda>x. m (kd x) \<noteq> None) ds)"
      using fresh by (intro map_cong) auto
    have f4: "(\<lambda>k. if k \<in> kd ` set ds then None else (m(kd d := None)) k)
             = (\<lambda>k. if k \<in> kd ` set (d # ds) then None else m k)"
      by auto
    have "bind_data kd ds (m(kd d := None)) =
        (filter (\<lambda>x. m (kd x) = None) ds,
         map (\<lambda>x. (the (m (kd x)), x)) (filter (\<lambda>x. m (kd x) \<noteq> None) ds),
         (\<lambda>k. if k \<in> kd ` set (d # ds) then None else m k))"
      unfolding Cons.IH[OF dist, of "m(kd d := None)"] f1 f2 f3 f4 ..
    then have "bind_data kd (d # ds) m =
        (filter (\<lambda>x. m (kd x) = None) ds,
         (n, d) # map (\<lambda>x. (the (m (kd x)), x)) (filter (\<lambda>x. m (kd x) \<noteq> None) ds),
         (\<lambda>k. if k \<in> kd ` set (d # ds) then None else m k))"
      using Some by simp
    with Some show ?thesis by simp
  qed
qed

lemma exit_nodes_distinct:
  "distinct (map kn ns) \<Longrightarrow> seen \<inter> kn ` set ns = {} \<Longrightarrow>
   exit_nodes kn ns seen rest = filter (\<lambda>n. rest (kn n) \<noteq> None) ns"
  by (induction ns arbitrary: seen) auto

lemma data_join_distinct:
  assumes "distinct (map kn els)" and "distinct (map kd data)"
  shows "data_join kn kd els data =
     (filter (\<lambda>d. kd d \<notin> kn ` set els) data,
      map (\<lambda>d. (the (List.find (\<lambda>n. kn n = kd d) els), d)) (filter (\<lambda>d. kd d \<in> kn ` set els) data),
      filter (\<lambda>n. kn n \<notin> kd ` set data) els)"
proof -
  let ?m = "key_nodes kn els Map.empty"
  have none: "\<And>k. ?m k = None \<longleftrightarrow> k \<notin> kn ` set els"
    by (rule key_nodes_empty_None)
  have val: "\<And>k. ?m k = List.find (\<lambda>n. kn n = k) els"
    by (simp add: key_nodes_find)
  have ex: "exit_nodes kn els {} (\<lambda>k. if k \<in> kd ` set data then None else ?m k)
        = filter (\<lambda>n. kn n \<notin> kd ` set data) els"
    using exit_nodes_distinct[OF assms(1), of "{}"] none by (auto intro!: filter_cong)
  show ?thesis
    unfolding data_join_def bind_data_distinct[OF assms(2)]
    using ex none by (simp add: val)
qed


lemma renderEdgesDelta_distinct:
  assumes "distinct (map eid bound)" and "distinct (map eid (allEdges lay))"
  shows "renderEdgesDelta bound lay =
     \<lparr>added = map eid (filter (\<lambda>d. eid d \<notin> eid ` set bound) (allEdges lay)),
      updated = map eid (filter (\<lambda>d. eid d \<in> eid ` set bound) (allEdges lay)),
      removed = map eid (filter (\<lambda>n. eid n \<notin> eid ` set (allEdges lay)) bound)\<rparr>"
  unfolding renderEdgesDelta_def data_join_distinct[OF assms]
  by (simp add: comp_def)

lemma traverse_unfold: "traverse d = d # concat (map traverse (nnodes d))"
  by (cases d) simp

lemma self_in_traverse: "d \<in> set (traverse d)"
  by (cases d) simp

lemma find_mirror:
  "distinct (map nid ns) \<Longrightarrow> d \<in> set ns \<Longrightarrow>
   List.find (\<lambda>n. datum_id n = nid d) (map mirror ns) = Some (mirror d)"
proof (induction ns)
  case Nil
  then show ?case by simp
next
  case (Cons a ns)
  have id: "\<And>x. datum_id (mirror x) = nid x"
    by (case_tac x) simp
  from Cons show ?case by (auto simp: id image_iff)
qed

lemma datum_id_mirror: "datum_id (mirror x) = nid x"
  by (cases x) simp

lemma children_mirror: "children (mirror x) = map mirror (nnodes x)"
  by (cases x) simp

lemma distinct_siblings:
  "distinct (map nid (concat (map traverse ns))) \<Longrightarrow> distinct (map nid ns)"
proof (induction ns)
  case Nil
  then show ?case by simp
next
  case (Cons a ns)
  have "set ns \<subseteq> set (concat (map traverse ns))"
    using self_in_traverse by fastforce
  with Cons.IH Cons.prems show ?case
    using traverse_unfold[of a] by auto
qed

lemma distinct_below:
  "distinct (map nid (concat (map traverse ns))) \<Longrightarrow> d \<in> set ns \<Longrightarrow>
   distinct (map nid (concat (map traverse (nnodes d))))"
proof (induction ns)
  case Nil
  then show ?case by simp
next
  case (Cons a ns)
  then show ?case
    using traverse_unfold[of a] by auto
qed

lemma set_traverse_list:
  "set (concat (map traverse ns)) = set ns \<union> (\<Union>d\<in>set ns. set (concat (map traverse (nnodes d))))"
proof (induction ns)
  case Nil
  then show ?case by simp
next
  case (Cons a ns)
  then show ?case
    using traverse_unfold[of a] by auto
qed

lemma recursiveBuild_mirror:
  "distinct (map nid (concat (map traverse ns))) \<Longrightarrow>
   added (recursiveBuild (map mirror ns) ns) = [] \<and>
   removed (recursiveBuild (map mirror ns) ns) = [] \<and>
   set (updated (recursiveBuild (map mirror ns) ns)) = nid ` set (concat (map traverse ns))"
proof (induction ns rule: measure_induct_rule[where f = "size_list size"])
  case (less ns)
  have sib: "distinct (map nid ns)"
    using less.prems by (rule distinct_siblings)
  have sib': "distinct (map datum_id (map mirror ns))"
    using sib by (simp add: comp_def datum_id_mirror)
  have keys: "datum_id ` set (map mirror ns) = nid ` set ns"
    by (auto simp: datum_id_mirror image_iff)
  have join: "data_join datum_id nid (map mirror ns) ns = ([], map (\<lambda>d. (mirror d, d)) ns, [])"
    unfolding data_join_distinct[OF sib' sib] keys
    using find_mirror[OF sib] by (auto simp: datum_id_mirror)
  have IH: "\<And>d. d \<in> set ns \<Longrightarrow>
      added (recursiveBuild (map mirror (nnodes d)) (nnodes d)) = [] \<and>
      removed (recursiveBuild (map mirror (nnodes d)) (nnodes d)) = [] \<and>
      set (updated (recursiveBuild (map mirror (nnodes d)) (nnodes d)))
        = nid ` set (concat (map traverse (nnodes d)))"
    using less.IH[OF size_nnodes_less] distinct_below[OF less.prems] by blast
  let ?below = "map (\<lambda>d. recursiveBuild (map mirror (nnodes d)) (nnodes d)) ns"
  have rb: "recursiveBuild (map mirror ns) ns =
      \<lparr>added = concat (map added ?below),
       updated = map nid ns @ concat (map updated ?below),
       removed = concat (map removed ?below)\<rparr>"
    unfolding recursiveBuild.simps[of "map mirror ns" ns] join
    by (simp add: children_mirror comp_def)
  have a: "concat (map added ?below) = []"
    using IH by (simp add: comp_def)
  have r: "concat (map removed ?below) = []"
    using IH by (simp add: comp_def)
  have u: "set (concat (map updated ?below))
         = (\<Union>d\<in>set ns. nid ` set (concat (map traverse (nnodes d))))"
    using IH by (simp add: comp_def)
  have tr: "nid ` set (concat (map traverse ns))
         = nid ` set ns \<union> (\<Union>d\<in>set ns. nid ` set (concat (map traverse (nnodes d))))"
    unfolding set_traverse_list[of ns] by (simp only: image_Un image_UN)
  show ?case
    unfolding rb tr using a r u by simp
qed

subsection \<open>Example graphs for the diff engine\<close>

definition two_level_graph :: layout where
  "two_level_graph = \<lparr>width = 100, height = 100,
     nodes = [Node ''P'' 50 50 [leaf ''X'', leaf ''Y''] [plain_edge ''e2'' ''X'' ''Y''] None,
              leaf ''A''],
     edges = [plain_edge ''e1'' ''A'' ''X'']\<rparr>"

definition lifted_edge_graph :: layout where
  "lifted_edge_graph = \<lparr>width = 100, height = 100,
     nodes = [Node ''P'' 50 50 [leaf ''X'', leaf ''Y''] [] None],
     edges = [plain_edge ''e1'' ''X'' ''Y'']\<rparr>"

text \<open>
  C3. A graph whose edge ids are distinct and whose node ids are distinct (the data
  model's invariant) is diffed against itself, that is, rendered in delta mode on the
  chart that shows it: no edge and no node is tagged new or removed, every edge id and
  every node id is tagged updated, and the three sets are pairwise disjoint.
\<close>

theorem diff_identity:
  assumes "distinct (map eid (allEdges G))" and "distinct (map nid (traverse_layout G))"
  shows "renderEdgesDelta (allEdges G) G = \<lparr>added = [], updated = map eid (allEdges G), removed = []\<rparr> \<and>
         added (renderNodesDelta (map mirror (nodes G)) G) = [] \<and>
         removed (renderNodesDelta (map mirror (nodes G)) G) = [] \<and>
         set (updated (renderNodesDelta (map mirror (nodes G)) G)) = nid ` set (traverse_layout G) \<and>
         set (added (renderNodesDelta (map mirror (nodes G)) G))
           \<inter> set (updated (renderNodesDelta (map mirror (nodes G)) G)) = {} \<and>
         set (removed (renderNodesDelta (map mirror (nodes G)) G))
           \<inter> set (updated (renderNodesDelta (map mirror (nodes G)) G)) = {} \<and>
         set (added (renderNodesDelta (map mirror (nodes G)) G))
           \<inter> set (removed (renderNodesDelta (map mirror (nodes G)) G)) = {}"
proof -
  have e: "renderEdgesDelta (allEdges G) G = \<lparr>added = [], updated = map eid (allEdges G), removed = []\<rparr>"
    unfolding renderEdgesDelta_distinct[OF assms(1) assms(1)] by simp
  have n: "added (renderNodesDelta (map mirror (nodes G)) G) = [] \<and>
           removed (renderNodesDelta (map mirror (nodes G)) G) = [] \<and>
           set (updated (renderNodesDelta (map mirror (nodes G)) G)) = nid ` set (traverse_layout G)"
    using recursiveBuild_mirror[of "nodes G"] assms(2)
    by (simp add: renderNodesDelta_def traverse_layout_def)
  from e n show ?thesis by simp
qed

theorem diff_identity_witness:
  "distinct (map eid (allEdges two_level_graph)) \<and>
   distinct (map nid (traverse_layout two_level_graph)) \<and>
   renderEdgesDelta (allEdges two_level_graph) two_level_graph
     = \<lparr>added = [], updated = [''e1'', ''e2''], removed = []\<rparr> \<and>
   added (renderNodesDelta (map mirror (nodes two_level_graph)) two_level_graph) = [] \<and>
   removed (renderNodesDelta (map mirror (nodes two_level_graph)) two_level_graph) = [] \<and>
   set (updated (renderNodesDelta (map mirror (nodes two_level_graph)) two_level_graph))
     = {''P'', ''X'', ''Y'', ''A''}"
proof -
  have h1: "distinct (map eid (allEdges two_level_graph))"
    by (simp add: allEdges_def traverse_layout_def two_level_graph_def leaf_def plain_edge_def)
  have h2: "distinct (map nid (traverse_layout two_level_graph))"
    by (simp add: traverse_layout_def two_level_graph_def leaf_def)
  have ids: "nid ` set (traverse_layout two_level_graph) = {''P'', ''X'', ''Y'', ''A''}"
    by (simp add: traverse_layout_def two_level_graph_def leaf_def)
  have es: "map eid (allEdges two_level_graph) = [''e1'', ''e2'']"
    by (simp add: allEdges_def traverse_layout_def two_level_graph_def leaf_def plain_edge_def)
  from diff_identity[OF h1 h2] h1 h2 ids es show ?thesis by simp
qed

text \<open>
  C4. The edge diff joins the flattened list of the edges of all levels. When the edge
  ids of the chart and of the next graph are distinct, an edge of the next graph, held in
  any edge list of it, whose id is bound in the chart, from any edge list of the previous
  graph, is tagged updated, and neither new nor removed.
\<close>

theorem edge_diff_flattened:
  assumes "distinct (map eid (allEdges prev))" and "distinct (map eid (allEdges next))"
    and "e \<in> set (edges next) \<or> (\<exists>n \<in> set (traverse_layout next). e \<in> set (nedges n))"
    and "e' \<in> set (edges prev) \<or> (\<exists>n \<in> set (traverse_layout prev). e' \<in> set (nedges n))"
    and "eid e' = eid e"
  shows "eid e \<in> set (updated (renderEdgesDelta (allEdges prev) next)) \<and>
         eid e \<notin> set (added (renderEdgesDelta (allEdges prev) next)) \<and>
         eid e \<notin> set (removed (renderEdgesDelta (allEdges prev) next))"
proof -
  have n: "e \<in> set (allEdges next)"
    using assms(3) by (auto simp: allEdges_def)
  have p: "e' \<in> set (allEdges prev)"
    using assms(4) by (auto simp: allEdges_def)
  from p assms(5) have k: "eid e \<in> eid ` set (allEdges prev)"
    by (metis imageI)
  from n have k': "eid e \<in> eid ` set (allEdges next)"
    by (rule imageI)
  have "e \<in> set (filter (\<lambda>d. eid d \<in> eid ` set (allEdges prev)) (allEdges next))"
    using n k by simp
  then have "eid e \<in> eid ` set (filter (\<lambda>d. eid d \<in> eid ` set (allEdges prev)) (allEdges next))"
    by (rule imageI)
  then have u: "eid e \<in> set (map eid (filter (\<lambda>d. eid d \<in> eid ` set (allEdges prev)) (allEdges next)))"
    by (simp only: set_map)
  have a: "eid e \<notin> set (map eid (filter (\<lambda>d. eid d \<notin> eid ` set (allEdges prev)) (allEdges next)))"
  proof
    assume "eid e \<in> set (map eid (filter (\<lambda>d. eid d \<notin> eid ` set (allEdges prev)) (allEdges next)))"
    then obtain d :: edge where "eid d = eid e" and "eid d \<notin> eid ` set (allEdges prev)"
      by auto
    with k show False by simp
  qed
  have r: "eid e \<notin> set (map eid (filter (\<lambda>n. eid n \<notin> eid ` set (allEdges next)) (allEdges prev)))"
  proof
    assume "eid e \<in> set (map eid (filter (\<lambda>n. eid n \<notin> eid ` set (allEdges next)) (allEdges prev)))"
    then obtain d :: edge where "eid d = eid e" and "eid d \<notin> eid ` set (allEdges next)"
      by auto
    with k' show False by simp
  qed
  show ?thesis
    unfolding renderEdgesDelta_distinct[OF assms(1) assms(2)]
    using u a r by simp
qed

theorem edge_diff_flattened_witness:
  "distinct (map eid (allEdges nested_edge_graph)) \<and>
   distinct (map eid (allEdges lifted_edge_graph)) \<and>
   plain_edge ''e1'' ''X'' ''Y'' \<in> set (edges lifted_edge_graph) \<and>
   (\<exists>n \<in> set (traverse_layout nested_edge_graph). plain_edge ''e1'' ''X'' ''Y'' \<in> set (nedges n)) \<and>
   ''e1'' \<in> set (updated (renderEdgesDelta (allEdges nested_edge_graph) lifted_edge_graph)) \<and>
   ''e1'' \<notin> set (added (renderEdgesDelta (allEdges nested_edge_graph) lifted_edge_graph)) \<and>
   ''e1'' \<notin> set (removed (renderEdgesDelta (allEdges nested_edge_graph) lifted_edge_graph))"
proof -
  have h1: "distinct (map eid (allEdges nested_edge_graph))"
    by (simp add: allEdges_def traverse_layout_def nested_edge_graph_def leaf_def plain_edge_def)
  have h2: "distinct (map eid (allEdges lifted_edge_graph))"
    by (simp add: allEdges_def traverse_layout_def lifted_edge_graph_def leaf_def plain_edge_def)
  have h3: "plain_edge ''e1'' ''X'' ''Y'' \<in> set (edges lifted_edge_graph)"
    by (simp add: lifted_edge_graph_def)
  have h4: "\<exists>n \<in> set (traverse_layout nested_edge_graph). plain_edge ''e1'' ''X'' ''Y'' \<in> set (nedges n)"
    by (simp add: traverse_layout_def nested_edge_graph_def leaf_def)
  have h5: "eid (plain_edge ''e1'' ''X'' ''Y'') = ''e1''"
    by (simp add: plain_edge_def)
  from edge_diff_flattened[OF h1 h2 disjI1[OF h3] disjI2[OF h4] refl] h1 h2 h3 h4 h5
  show ?thesis by simp
qed

section \<open>Properties of collapse and expand\<close>

subsection \<open>Example renderers\<close>

text \<open>
  An adapter that takes a graph as its raw data and leaves the geometry as it is, and a
  renderer that shows a graph: the state after \<^verbatim>\<open>setData\<close> and a render.
\<close>

definition plain_adapter :: "layout adapter" where
  "plain_adapter = \<lparr>makeRenderingGraph = Inr, run = Inr\<rparr>"

definition shown :: "layout \<Rightarrow> layout renderer" where
  "shown g = \<lparr>rdata = g, layout = Some g, collapseTracker = Map.empty, hiddenEdges = Map.empty\<rparr>"

text \<open>
  The node P holds X and Y. Both edges run between X and Y; one is in the edge list of
  the root, the other in the edge list of P.
\<close>

definition two_list_graph :: layout where
  "two_list_graph = \<lparr>width = 100, height = 100,
     nodes = [Node ''P'' 50 50 [leaf ''X'', leaf ''Y''] [plain_edge ''e2'' ''Y'' ''X''] None],
     edges = [plain_edge ''e1'' ''X'' ''Y'']\<rparr>"

text \<open>
  C1. Collapse followed by expand does not restore every graph. On \<open>two_list_graph\<close>,
  collapsing P and expanding it again returns without error, the children X and Y are
  back, but the edge e1 is in no edge list any more, and e2 has moved from the edge list
  of P to the edge list of the root. On \<open>nested_edge_graph\<close>, where the only edge is
  held by P, the edge comes back in the edge list of the root.
\<close>

theorem collapse_expand_not_restored:
  "map_sum id layout (collapse_then_expand plain_adapter ''P'' (shown two_list_graph)) =
     Inr (Some \<lparr>width = 100, height = 100,
       nodes = [Node ''P'' 40 40 [leaf ''X'', leaf ''Y''] [] (Some False)],
       edges = [plain_edge ''e2'' ''Y'' ''X'']\<rparr>) \<and>
   map_sum id layout (collapse_then_expand plain_adapter ''P'' (shown nested_edge_graph)) =
     Inr (Some \<lparr>width = 100, height = 100,
       nodes = [Node ''P'' 40 40 [leaf ''X'', leaf ''Y''] [] (Some False)],
       edges = [plain_edge ''e1'' ''X'' ''Y'']\<rparr>)"
  by (simp add: collapse_then_expand_def collapse_def expand_def shown_def two_list_graph_def
      nested_edge_graph_def plain_adapter_def childrenNodeIds_def traverse_layout_def leaf_def
      plain_edge_def collapse_edges_def restore_visit_def revert_edge_def Let_def)

text \<open>
  In \<open>deep_edge_graph\<close> the node P holds Q, which holds X; the only edge runs from X to
  the outer node A and is held by Q, two levels below the root.
\<close>

definition deep_edge_graph :: layout where
  "deep_edge_graph = \<lparr>width = 100, height = 100,
     nodes = [Node ''P'' 50 50
                [Node ''Q'' 30 30 [leaf ''X''] [plain_edge ''e3'' ''X'' ''A''] None] [] None,
              leaf ''A''],
     edges = []\<rparr>"

text \<open>
  C2. Collapse does not treat every edge as the partition says. On \<open>two_list_graph\<close>,
  collapsing P takes e1 out of the root list and e2 out of the list of P; the store of P
  is assigned once per edge list, so it ends with e2 only, and e1 is neither in an edge
  list nor in the store. On \<open>deep_edge_graph\<close>, the edge e3 has exactly one endpoint
  inside P, but the walk does not reach the edge list of Q: after the collapse of P no
  edge list holds e3, nothing is recorded in the \<^verbatim>\<open>edgeMap\<close> for it, and it is not in the
  store; it stays, as it was, in the saved children.
\<close>

theorem collapse_hidden_store_overwritten:
  "map_sum id (\<lambda>st. (map_option allEdges (layout st), hiddenEdges st ''P''))
     (collapse plain_adapter ''P'' (shown two_list_graph)) =
     Inr (Some [], Some [plain_edge ''e2'' ''Y'' ''X'']) \<and>
   map_sum id (\<lambda>st. (map_option allEdges (layout st), hiddenEdges st ''P'',
                     map_option (\<lambda>entry. (edgeMap entry ''e3'', entry_nodes entry))
                       (collapseTracker st ''P'')))
     (collapse plain_adapter ''P'' (shown deep_edge_graph)) =
     Inr (Some [], None,
          Some (None, Some [Node ''Q'' 30 30 [leaf ''X''] [plain_edge ''e3'' ''X'' ''A''] None]))"
  by (simp add: collapse_def shown_def two_list_graph_def deep_edge_graph_def plain_adapter_def
      childrenNodeIds_def traverse_layout_def allEdges_def leaf_def plain_edge_def
      collapse_edges_def Let_def)

text \<open>
  What \<^verbatim>\<open>collapse\<close> does on a node that has no nodes below it in the chart: it returns
  the renderer with a fresh tracker entry for the node, and nothing else changed.
\<close>

lemma collapse_leaf:
  "layout st = Some lay \<Longrightarrow> childrenNodeIds lay nodeId = [] \<Longrightarrow>
   collapse ad nodeId st =
     Inr (st\<lparr>collapseTracker := (collapseTracker st)(nodeId \<mapsto> \<lparr>edgeMap = Map.empty, entry_nodes = None\<rparr>)\<rparr>)"
  by (simp add: collapse_def)

text \<open>
  C8. Collapse of a node without children returns without error and leaves the graph and
  the hidden-edge store as they are, but it is not a no-op: the tracker entry of the node
  is written before the test for a leaf. On the graph of three leaves the renderer has
  no entry for A before the call and an empty one after it. When P of \<open>two_list_graph\<close>
  has been collapsed, a second collapse of P, now a leaf, replaces the entry that holds
  the children of P by an empty one.
\<close>

theorem collapse_leaf_writes_tracker:
  "collapseTracker (shown chain_graph) ''A'' = None \<and>
   map_sum id (\<lambda>st. (layout st, collapseTracker st ''A'', hiddenEdges st ''A''))
     (collapse plain_adapter ''A'' (shown chain_graph)) =
     Inr (Some chain_graph, Some \<lparr>edgeMap = Map.empty, entry_nodes = None\<rparr>, None) \<and>
   map_sum id (\<lambda>st. map_option entry_nodes (collapseTracker st ''P''))
     (collapse plain_adapter ''P'' (shown two_list_graph)) =
     Inr (Some (Some [leaf ''X'', leaf ''Y''])) \<and>
   map_sum id (\<lambda>st. map_option entry_nodes (collapseTracker st ''P''))
     (case collapse plain_adapter ''P'' (shown two_list_graph) of
        Inl e \<Rightarrow> Inl e
      | Inr st \<Rightarrow> collapse plain_adapter ''P'' st) =
     Inr (Some None)"
  by (simp add: collapse_def shown_def chain_graph_def two_list_graph_def plain_adapter_def
      childrenNodeIds_def traverse_layout_def leaf_def plain_edge_def collapse_edges_def Let_def)

section \<open>Properties of culling\<close>

text \<open>
  A view zoomed in by the factor 2 on the middle of a layout of 100 by 100, and an edge
  that runs through the middle from (10, 50) to (90, 50).
\<close>

definition zoomed_in :: transform where
  "zoomed_in = \<lparr>scale_k = 2, translate_x = -50, translate_y = -50\<rparr>"

definition crossing_edge :: edge where
  "crossing_edge = \<lparr>eid = ''e1'', source = ''A'', target = ''B'', points = [(10, 50), (90, 50)]\<rparr>"

text \<open>
  The forward map of the zoom transform, as in the lines that \<^verbatim>\<open>boundary()\<close> keeps in a
  comment (\<^verbatim>\<open>x * t.k + t.x\<close>), and the test that a point lies in a rectangle, its sides
  included.
\<close>

definition apply_transform :: "transform \<Rightarrow> real \<times> real \<Rightarrow> real \<times> real" where
  "apply_transform t p = (fst p * scale_k t + translate_x t, snd p * scale_k t + translate_y t)"

definition in_view :: "real \<times> real \<times> real \<times> real \<Rightarrow> real \<times> real \<Rightarrow> bool" where
  "in_view b p =
     (case b of (x1, y1, x2, y2) \<Rightarrow> x1 \<le> fst p \<and> fst p \<le> x2 \<and> y1 \<le> snd p \<and> snd p \<le> y2)"

definition half_seen_edge :: edge where
  "half_seen_edge = \<lparr>eid = ''e2'', source = ''B'', target = ''C'', points = [(10, 50), (50, 50)]\<rparr>"

lemma cull_test_in_view:
  "points d \<noteq> [] \<Longrightarrow>
   cull_test b d = Inr (\<not> in_view b (hd (points d)) \<and> \<not> in_view b (last (points d)))"
  by (cases b; cases "points d") (auto simp: cull_test_def in_view_def Let_def)

lemma cull_each_in_view:
  "\<forall>e \<in> set chart_edges. points (fst e) \<noteq> [] \<Longrightarrow>
   cull_each b chart_edges =
     Inr (map (\<lambda>(d, opacity).
                (d, if \<not> in_view b (hd (points d)) \<and> \<not> in_view b (last (points d))
                    then 0 else opacity)) chart_edges)"
proof (induction chart_edges)
  case Nil
  then show ?case by simp
next
  case (Cons e rest)
  obtain d opacity where e: "e = (d, opacity)"
    by (cases e)
  from Cons.prems e have p: "points d \<noteq> []"
    by simp
  from Cons show ?case
    by (simp add: e cull_test_in_view[OF p])
qed

text \<open>
  C7. The test of \<^verbatim>\<open>cullEdges\<close> is not restricted to one side. For the view
  \<open>zoomed_in\<close> the rectangle is (25, 25, 75, 75); \<open>crossing_edge\<close> has its first point
  left of the rectangle and its last point right of it, and \<^verbatim>\<open>cullEdges\<close> sets its
  opacity to 0: an edge with its endpoints outside on different sides does not remain
  visible.
\<close>

theorem cullEdges_hides_crossing_edge:
  "boundary zoomed_in chain_graph = (25, 25, 75, 75) \<and>
   cullEdges zoomed_in (Some chain_graph) [(crossing_edge, 1)] = Inr [(crossing_edge, 0)]"
  by (simp add: cullEdges_def boundary_def cull_test_def crossing_edge_def chain_graph_def
      zoomed_in_def)

text \<open>
  C7, amended. For a zoom transform with a scale other than 0, the rectangle of
  \<^verbatim>\<open>boundary()\<close> is the inverse image of the corners (0, 0) and (width, height) of the
  layout, not of the container: the transform maps its corners to these two points. When
  every edge of the chart has a point, \<^verbatim>\<open>cullEdges\<close> sets the opacity to 0 for exactly
  the edges whose first and last point both lie outside the rectangle, each beyond any
  side, and leaves the opacity of every other edge as it is; so an edge with an endpoint
  in view stays visible, and an edge with both endpoints outside is hidden whether or
  not they are outside on the same side.
\<close>

theorem cullEdges_both_endpoints_outside:
  assumes "scale_k t \<noteq> 0" and "\<forall>e \<in> set chart_edges. points (fst e) \<noteq> []"
  shows "apply_transform t (fst (boundary t lay), fst (snd (boundary t lay))) = (0, 0) \<and>
         apply_transform t (fst (snd (snd (boundary t lay))), snd (snd (snd (boundary t lay))))
           = (width lay, height lay) \<and>
         cullEdges t (Some lay) chart_edges =
           Inr (map (\<lambda>(d, opacity).
                      (d, if \<not> in_view (boundary t lay) (hd (points d)) \<and>
                             \<not> in_view (boundary t lay) (last (points d))
                          then 0 else opacity)) chart_edges)"
proof -
  have c1: "apply_transform t (fst (boundary t lay), fst (snd (boundary t lay))) = (0, 0)"
    using assms(1) by (simp add: apply_transform_def boundary_def)
  have c2: "apply_transform t (fst (snd (snd (boundary t lay))), snd (snd (snd (boundary t lay))))
            = (width lay, height lay)"
    using assms(1) by (simp add: apply_transform_def boundary_def)
  have c3: "cullEdges t (Some lay) chart_edges =
           Inr (map (\<lambda>(d, opacity).
                      (d, if \<not> in_view (boundary t lay) (hd (points d)) \<and>
                             \<not> in_view (boundary t lay) (last (points d))
                          then 0 else opacity)) chart_edges)"
    using cull_each_in_view[OF assms(2), of "boundary t lay"] by (simp add: cullEdges_def)
  from c1 c2 c3 show ?thesis by simp
qed

theorem cullEdges_both_endpoints_outside_witness:
  "scale_k zoomed_in \<noteq> 0 \<and>
   points crossing_edge \<noteq> [] \<and> points half_seen_edge \<noteq> [] \<and>
   boundary zoomed_in chain_graph = (25, 25, 75, 75) \<and>
   apply_transform zoomed_in (25, 25) = (0, 0) \<and>
   apply_transform zoomed_in (75, 75) = (100, 100) \<and>
   cullEdges zoomed_in (Some chain_graph) [(crossing_edge, 1), (half_seen_edge, 1)]
     = Inr [(crossing_edge, 0), (half_seen_edge, 1)]"
proof -
  have h1: "scale_k zoomed_in \<noteq> 0"
    by (simp add: zoomed_in_def)
  have h2: "\<forall>e \<in> set [(crossing_edge, 1::real), (half_seen_edge, 1)]. points (fst e) \<noteq> []"
    by (simp add: crossing_edge_def half_seen_edge_def)
  have b: "boundary zoomed_in chain_graph = (25, 25, 75, 75)"
    by (simp add: boundary_def zoomed_in_def chain_graph_def)
  have h3: "points crossing_edge \<noteq> [] \<and> points half_seen_edge \<noteq> []"
    by (simp add: crossing_edge_def half_seen_edge_def)
  from cullEdges_both_endpoints_outside[OF h1 h2, of chain_graph] h1 h3 b show ?thesis
    by (simp add: in_view_def crossing_edge_def half_seen_edge_def chain_graph_def)
qed

section \<open>Properties of the render orchestrator\<close>

definition empty_layout :: layout where
  "empty_layout = \<lparr>width = 0, height = 0, nodes = [], edges = []\<rparr>"

definition unit_adapter :: "unit adapter" where
  "unit_adapter = \<lparr>makeRenderingGraph = (\<lambda>_. Inr empty_layout), run = Inr\<rparr>"

text \<open>
  C9. The \<^verbatim>\<open>render\<close> of \<^verbatim>\<open>svg-renderer.js\<close> does not fail when no data has been set: on
  the renderer as the constructor leaves it, with an adapter that accepts the empty data,
  it returns with the layout that the adapter made.
\<close>

theorem render_before_setData_counterexample:
  "render unit_adapter (new_renderer ()) = Inr ((new_renderer ())\<lparr>layout := Some empty_layout\<rparr>)"
  by (simp add: render_def runLayout_def unit_adapter_def new_renderer_def)

text \<open>
  C9, amended. Without a layout, the \<^verbatim>\<open>render\<close> of the second source file fails with the
  error \<^verbatim>\<open>Layout data not set\<close>, whatever the adapter is; the \<^verbatim>\<open>render\<close> of
  \<^verbatim>\<open>svg-renderer.js\<close> runs the layout adapter on the current data and goes on with the
  layout it returns, and fails only with the adapter's error.
\<close>

theorem render_without_layout:
  assumes "layout st = None"
  shows "render_unnamed ad st = Inl (Error ''Layout data not set'') \<and>
         render ad st = (case runLayout ad st of
                           Inl e \<Rightarrow> Inl e
                         | Inr l \<Rightarrow> Inr (st\<lparr>layout := Some l\<rparr>))"
  using assms by (simp add: render_unnamed_def render_def)

theorem render_without_layout_witness:
  "layout (new_renderer ()) = None \<and>
   render_unnamed unit_adapter (new_renderer ()) = Inl (Error ''Layout data not set'') \<and>
   render unit_adapter (new_renderer ()) = Inr ((new_renderer ())\<lparr>layout := Some empty_layout\<rparr>)"
proof -
  have h: "layout (new_renderer ()) = None"
    by (simp add: new_renderer_def)
  from render_without_layout[OF h, of unit_adapter] h show ?thesis
    by (simp add: runLayout_def unit_adapter_def new_renderer_def)
qed

end
